theory Spec2Isabelle
  imports Main "HOL-Library.Sublist"
begin

section \<open>Chat prompt assembly of \<^verbatim>\<open>modules/chat.py\<close>\<close>

text \<open>
  A shallow embedding of the prompt assembly code of \<^verbatim>\<open>modules/chat.py\<close>:
  \<^verbatim>\<open>get_generation_prompt\<close>, \<^verbatim>\<open>generate_chat_prompt\<close> with its inner functions
  \<^verbatim>\<open>remove_extra_bos\<close> and \<^verbatim>\<open>make_prompt\<close> and its truncation loop, and
  \<^verbatim>\<open>get_stopping_strings\<close>.

  Python strings are modelled as \<^typ>\<open>string\<close>, one \<^typ>\<open>char\<close> per code point, which
  covers the code points below 256. A Python exception is a value \<open>Inl e\<close> of the
  result type \<open>error + 'a\<close>. The Jinja engine, the extension hook \<^verbatim>\<open>bot_prefix\<close>, the
  tokenizer length and the prompt budget are not part of the module: they are
  parameters of the model.
\<close>

subsection \<open>Exceptions\<close>

datatype error = IndexError | ValueError | TemplateError

text \<open>Sequencing of two computations that may raise: the first exception wins.\<close>

definition ebind :: "error + 'a \<Rightarrow> ('a \<Rightarrow> error + 'b) \<Rightarrow> error + 'b" where
  "ebind r f = (case r of Inl e \<Rightarrow> Inl e | Inr v \<Rightarrow> f v)"

subsection \<open>The string and list operations of Python that the module uses\<close>

text \<open>
  \<^verbatim>\<open>s.split(sep)\<close> for a non-empty separator: the pieces between the occurrences of
  \<open>sep\<close>, found from left to right without overlap. The result is never empty.
\<close>

fun split_at :: "string \<Rightarrow> string \<Rightarrow> string list" where
  "split_at sep [] = [[]]"
| "split_at sep (c # cs) =
     (if prefix sep (c # cs) then [] # split_at sep (drop (length sep - 1) cs)
      else (case split_at sep cs of
              [] \<Rightarrow> [[c]]
            | p # ps \<Rightarrow> (c # p) # ps))"

text \<open>\<^verbatim>\<open>s.split(sep)\<close>: an empty separator raises \<^verbatim>\<open>ValueError\<close>.\<close>

definition split :: "string \<Rightarrow> string \<Rightarrow> error + string list" where
  "split s sep = (if sep = [] then Inl ValueError else Inr (split_at sep s))"

text \<open>\<^verbatim>\<open>xs[i]\<close> for an index \<open>i \<ge> 0\<close>: out of range raises \<^verbatim>\<open>IndexError\<close>.\<close>

definition index :: "'a list \<Rightarrow> nat \<Rightarrow> error + 'a" where
  "index xs i = (if i < length xs then Inr (xs ! i) else Inl IndexError)"

text \<open>\<^verbatim>\<open>xs[-1]\<close>: raises \<^verbatim>\<open>IndexError\<close> on the empty list.\<close>

definition index_last :: "'a list \<Rightarrow> error + 'a" where
  "index_last xs = (if xs = [] then Inl IndexError else Inr (last xs))"

text \<open>
  \<^verbatim>\<open>s[:-n]\<close> for \<open>n \<ge> 0\<close>. For \<open>n = 0\<close> the slice is \<^verbatim>\<open>s[:0]\<close>, the empty string;
  for \<open>n\<close> beyond the length the stop is clipped to 0.
\<close>

definition slice_to_minus :: "string \<Rightarrow> nat \<Rightarrow> string" where
  "slice_to_minus s n = (if n = 0 then [] else take (length s - n) s)"

text \<open>\<^verbatim>\<open>s.rstrip(' ')\<close>.\<close>

definition rstrip_space :: "string \<Rightarrow> string" where
  "rstrip_space s = rev (dropWhile (\<lambda>c. c = CHR '' '') (rev s))"

text \<open>
  \<^verbatim>\<open>str.isspace\<close> on one character, for the code points below 256: tab, line feed,
  vertical tab, form feed, carriage return, the separators 28 to 31, space,
  next line (133) and no-break space (160).
\<close>

definition isspace :: "char \<Rightarrow> bool" where
  "isspace c = ((of_char c :: nat) \<in> set [9, 10, 11, 12, 13, 28, 29, 30, 31, 32, 133, 160])"

text \<open>\<^verbatim>\<open>s.strip()\<close>.\<close>

definition strip :: "string \<Rightarrow> string" where
  "strip s = rev (dropWhile isspace (rev (dropWhile isspace s)))"

text \<open>
  \<^verbatim>\<open>s.replace(old, new)\<close>: every occurrence of \<open>old\<close>, from left to right without
  overlap; an empty \<open>old\<close> matches before every character and at the end.
\<close>

fun replace :: "string \<Rightarrow> string \<Rightarrow> string \<Rightarrow> string" where
  "replace old new [] = (if old = [] then new else [])"
| "replace old new (c # cs) =
     (if old = [] then new @ c # replace old new cs
      else if prefix old (c # cs) then new @ replace old new (drop (length old - 1) cs)
      else c # replace old new cs)"

text \<open>\<^verbatim>\<open>xs.insert(i, x)\<close> for \<open>i \<ge> 0\<close>: an index beyond the end appends.\<close>

definition list_insert :: "nat \<Rightarrow> 'a \<Rightarrow> 'a list \<Rightarrow> 'a list" where
  "list_insert i x xs = take i xs @ x # drop i xs"

text \<open>\<^verbatim>\<open>xs.pop(i)\<close> for \<open>i \<ge> 0\<close>, keeping the list only: out of range raises.\<close>

definition list_pop :: "nat \<Rightarrow> 'a list \<Rightarrow> error + 'a list" where
  "list_pop i xs = (if i < length xs then Inr (take i xs @ drop (Suc i) xs) else Inl IndexError)"

subsection \<open>Messages and renderers\<close>

record message =
  role :: string
  content :: string

text \<open>
  A renderer is a template's \<^verbatim>\<open>render\<close> with its keyword arguments bound
  (\<^verbatim>\<open>functools.partial\<close>); it takes the messages and may raise.
\<close>

type_synonym renderer = "message list \<Rightarrow> error + string"

definition user_message_1 :: string where
  "user_message_1 = ''<<|user-message-1|>>''"

definition user_message_2 :: string where
  "user_message_2 = ''<<|user-message-2|>>''"

subsection \<open>\<^verbatim>\<open>get_generation_prompt\<close>\<close>

text \<open>The two messages that the probe renders, by the flag \<^verbatim>\<open>impersonate\<close>.\<close>

definition probe_messages :: "bool \<Rightarrow> message list" where
  "probe_messages impersonate =
     (if impersonate then
        [\<lparr>role = ''user'', content = user_message_1\<rparr>,
         \<lparr>role = ''user'', content = user_message_2\<rparr>]
      else
        [\<lparr>role = ''assistant'', content = user_message_1\<rparr>,
         \<lparr>role = ''assistant'', content = user_message_2\<rparr>])"

definition get_generation_prompt :: "renderer \<Rightarrow> bool \<Rightarrow> bool \<Rightarrow> error + (string \<times> string)" where
  "get_generation_prompt renderer impersonate strip_trailing_spaces =
     (let messages = probe_messages impersonate
      in
      ebind (renderer messages) (\<lambda>prompt.
      ebind (split prompt user_message_1) (\<lambda>pieces1.
      ebind (index pieces1 1) (\<lambda>after1.
      ebind (split after1 user_message_2) (\<lambda>pieces2.
      ebind (index pieces2 0) (\<lambda>suffix_plus_prefix.
      ebind (split prompt user_message_2) (\<lambda>pieces3.
      ebind (index pieces3 1) (\<lambda>suffix.
        let pre = drop (length suffix) suffix_plus_prefix;
            pre = (if strip_trailing_spaces then rstrip_space pre else pre)
        in Inr (pre, suffix)))))))))"

subsection \<open>\<^verbatim>\<open>remove_extra_bos\<close>\<close>

text \<open>
  The inner loop \<^verbatim>\<open>while prompt.startswith(bos_token): prompt = prompt[len(bos_token):]\<close>.
  The source runs it for two non-empty literals only; for an empty token the
  Python loop would not end, and the model stops at once there.
\<close>

function strip_leading :: "string \<Rightarrow> string \<Rightarrow> string" where
  "strip_leading bos_token prompt =
     (if bos_token \<noteq> [] \<and> prefix bos_token prompt
      then strip_leading bos_token (drop (length bos_token) prompt)
      else prompt)"
  by pat_completeness auto
termination
  by (relation "measure (\<lambda>(bos_token, prompt). length prompt)") (auto simp: prefix_def)

declare strip_leading.simps [simp del]

definition remove_extra_bos :: "string \<Rightarrow> string" where
  "remove_extra_bos prompt = fold strip_leading [''<s>'', ''<|startoftext|>''] prompt"

subsection \<open>The conversation state and the collaborators\<close>

record history =
  internal :: "(string \<times> string) list"
  visible :: "(string \<times> string) list"

text \<open>
  The keys of the \<^verbatim>\<open>state\<close> dictionary that the module reads. The key
  \<^verbatim>\<open>'stopping_strings'\<close> is optional: \<open>None\<close> stands for a missing key and for a
  value that is not a list.
\<close>

record state =
  mode :: string
  name1 :: string
  name2 :: string
  context_str :: string
  custom_system_message :: string
  chat_template_str :: string
  instruction_template_str :: string
  chat_instruct_command :: string
  history :: history
  stopping_strings :: "string list option"

text \<open>
  The keyword arguments a template is rendered with, apart from \<^verbatim>\<open>messages\<close>;
  \<open>None\<close> is an argument that is not passed.
\<close>

record kwargs =
  add_generation_prompt :: "bool option"
  kw_name1 :: "string option"
  kw_name2 :: "string option"

text \<open>A compiled template is its \<^verbatim>\<open>render\<close> method.\<close>

type_synonym template = "kwargs \<Rightarrow> renderer"

text \<open>
  What the module imports: \<^verbatim>\<open>jinja_env.from_string\<close>,
  \<^verbatim>\<open>apply_extensions('bot_prefix', prefix, state)\<close>, \<^verbatim>\<open>get_encoded_length\<close> and
  \<^verbatim>\<open>get_max_prompt_length\<close>.
\<close>

record collaborators =
  from_string :: "string \<Rightarrow> error + template"
  bot_prefix :: "string \<Rightarrow> state \<Rightarrow> string"
  get_encoded_length :: "string \<Rightarrow> int"
  get_max_prompt_length :: "state \<Rightarrow> int"

definition chat_renderer_of :: "template \<Rightarrow> state \<Rightarrow> renderer" where
  "chat_renderer_of chat_template st =
     chat_template \<lparr>add_generation_prompt = Some False,
                    kw_name1 = Some (name1 st), kw_name2 = Some (name2 st)\<rparr>"

definition instruct_renderer_of :: "template \<Rightarrow> renderer" where
  "instruct_renderer_of instruction_template =
     instruction_template \<lparr>add_generation_prompt = Some False, kw_name1 = None, kw_name2 = None\<rparr>"

text \<open>\<^verbatim>\<open>instruction_template.render(messages=...)\<close>, with no other argument.\<close>

definition render_plain :: "template \<Rightarrow> renderer" where
  "render_plain instruction_template =
     instruction_template \<lparr>add_generation_prompt = None, kw_name1 = None, kw_name2 = None\<rparr>"

subsection \<open>\<^verbatim>\<open>replace_character_names\<close>\<close>

definition replace_character_names :: "string \<Rightarrow> string \<Rightarrow> string \<Rightarrow> string" where
  "replace_character_names text n1 n2 =
     (let text = replace ''{{char}}'' n2 (replace ''{{user}}'' n1 text)
      in replace ''<BOT>'' n2 (replace ''<USER>'' n1 text))"

subsection \<open>\<^verbatim>\<open>generate_chat_prompt\<close>: the message list\<close>

text \<open>The system message that opens the list, by mode.\<close>

definition initial_messages :: "state \<Rightarrow> message list" where
  "initial_messages st =
     (if mode st = ''instruct'' then
        (if strip (custom_system_message st) \<noteq> []
         then [\<lparr>role = ''system'', content = custom_system_message st\<rparr>] else [])
      else
        (if strip (context_str st) \<noteq> []
         then [\<lparr>role = ''system'',
                content = replace_character_names (context_str st) (name1 st) (name2 st)\<rparr>]
         else []))"

text \<open>
  The loop \<^verbatim>\<open>for user_msg, assistant_msg in reversed(history)\<close>; the first argument
  is the turns still to visit, already reversed.
\<close>

fun insert_history :: "(string \<times> string) list \<Rightarrow> nat \<Rightarrow> message list \<Rightarrow> message list" where
  "insert_history [] insert_pos messages = messages"
| "insert_history ((user_msg, assistant_msg) # turns) insert_pos messages =
     (let user_msg = strip user_msg;
          assistant_msg = strip assistant_msg;
          messages = (if assistant_msg \<noteq> []
                      then list_insert insert_pos \<lparr>role = ''assistant'', content = assistant_msg\<rparr> messages
                      else messages);
          messages = (if user_msg \<notin> set [[], ''<|BEGIN-VISIBLE-CHAT|>'']
                      then list_insert insert_pos \<lparr>role = ''user'', content = user_msg\<rparr> messages
                      else messages)
      in insert_history turns insert_pos messages)"

definition build_messages ::
  "string \<Rightarrow> state \<Rightarrow> (string \<times> string) list \<Rightarrow> bool \<Rightarrow> bool \<Rightarrow> message list" where
  "build_messages user_input st hist impersonate continue =
     (let messages = initial_messages st;
          insert_pos = length messages;
          messages = insert_history (rev hist) insert_pos messages;
          user_input = strip user_input
      in if user_input \<noteq> [] \<and> \<not> impersonate \<and> \<not> continue
         then messages @ [\<lparr>role = ''user'', content = user_input\<rparr>]
         else messages)"

subsection \<open>\<^verbatim>\<open>make_prompt\<close>\<close>

text \<open>
  The closure \<^verbatim>\<open>make_prompt\<close> with what it captures made explicit: the hook, the
  state, the mode's renderer, the instruction template, its renderer and the two
  flags.
\<close>

definition make_prompt ::
  "(string \<Rightarrow> state \<Rightarrow> string) \<Rightarrow> state \<Rightarrow> renderer \<Rightarrow> template \<Rightarrow> renderer \<Rightarrow> bool \<Rightarrow> bool
   \<Rightarrow> message list \<Rightarrow> error + string" where
  "make_prompt hook st renderer instruction_template instruct_renderer impersonate continue messages =
     ebind (if mode st = ''chat-instruct'' \<and> continue
            then renderer (butlast messages) else renderer messages) (\<lambda>prompt.
     if mode st = ''chat-instruct'' then
       (let outer_messages =
              (if strip (custom_system_message st) \<noteq> []
               then [\<lparr>role = ''system'', content = custom_system_message st\<rparr>] else []);
            prompt = remove_extra_bos prompt;
            command = chat_instruct_command st;
            command = replace ''<|character|>'' (if \<not> impersonate then name2 st else name1 st) command;
            command = replace ''<|prompt|>'' prompt command
        in
        ebind (if continue then
                 ebind (get_generation_prompt renderer impersonate False) (\<lambda>(pre, suf).
                 ebind (index_last messages) (\<lambda>m. Inr (pre @ content m)))
               else
                 ebind (get_generation_prompt renderer impersonate True) (\<lambda>(pre, suf).
                 Inr (if \<not> impersonate then hook pre st else pre))) (\<lambda>pre.
        let outer_messages =
              outer_messages @ [\<lparr>role = ''user'', content = command\<rparr>,
                                \<lparr>role = ''assistant'', content = pre\<rparr>]
        in
        ebind (render_plain instruction_template outer_messages) (\<lambda>prompt.
        ebind (get_generation_prompt instruct_renderer False True) (\<lambda>(pre, suffix).
        Inr (remove_extra_bos (slice_to_minus prompt (length suffix)))))))
     else
       ebind (if continue then
                ebind (get_generation_prompt renderer impersonate True) (\<lambda>(pre, suffix).
                Inr (slice_to_minus prompt (length suffix)))
              else
                ebind (get_generation_prompt renderer impersonate True) (\<lambda>(pre, suffix).
                Inr (prompt @ (if mode st = ''chat'' \<and> \<not> impersonate then hook pre st else pre))))
         (\<lambda>prompt. Inr (remove_extra_bos prompt)))"

subsection \<open>\<^verbatim>\<open>generate_chat_prompt\<close>: the truncation loop\<close>

text \<open>The body of the loop up to the removal: which message goes.\<close>

definition truncation_pop :: "message list \<Rightarrow> error + message list" where
  "truncation_pop messages =
     (if length messages > 1 \<and> role (messages ! 0) = ''system''
      then list_pop 1 messages
      else list_pop 0 messages)"

text \<open>
  \<^verbatim>\<open>while len(messages) > 0 and get_encoded_length(prompt) > max_length\<close>, on the
  pair of the list and the current prompt. The composing function is the
  closure \<^verbatim>\<open>make_prompt\<close>; an exception it raises ends the loop.
\<close>

function truncation_loop ::
  "(message list \<Rightarrow> error + string) \<Rightarrow> (string \<Rightarrow> int) \<Rightarrow> int \<Rightarrow> message list \<Rightarrow> string
   \<Rightarrow> error + (string \<times> message list)" where
  "truncation_loop compose encoded_length max_length messages prompt =
     (if length messages > 0 \<and> encoded_length prompt > max_length then
        (case truncation_pop messages of
           Inl e \<Rightarrow> Inl e
         | Inr messages' \<Rightarrow>
             (case compose messages' of
                Inl e \<Rightarrow> Inl e
              | Inr prompt' \<Rightarrow> truncation_loop compose encoded_length max_length messages' prompt'))
      else Inr (prompt, messages))"
  by pat_completeness auto
termination
  by (relation "measure (\<lambda>(compose, encoded_length, max_length, messages, prompt). length messages)")
     (auto simp: truncation_pop_def list_pop_def split: if_splits)

declare truncation_loop.simps [simp del]

subsection \<open>\<^verbatim>\<open>generate_chat_prompt\<close>\<close>

datatype prompt_result = Prompt string | PromptRows string "string list"

definition generate_chat_prompt ::
  "collaborators \<Rightarrow> string \<Rightarrow> state \<Rightarrow> bool \<Rightarrow> bool \<Rightarrow> bool \<Rightarrow> history option
   \<Rightarrow> error + prompt_result" where
  "generate_chat_prompt ext user_input st impersonate continue also_return_rows history_kw =
     (let hist = internal (case history_kw of None \<Rightarrow> history st | Some h \<Rightarrow> h) in
      ebind (from_string ext (chat_template_str st)) (\<lambda>chat_template.
      ebind (from_string ext (instruction_template_str st)) (\<lambda>instruction_template.
      let chat_renderer = chat_renderer_of chat_template st;
          instruct_renderer = instruct_renderer_of instruction_template;
          renderer = (if mode st = ''instruct'' then instruct_renderer else chat_renderer);
          messages = build_messages user_input st hist impersonate continue;
          compose = make_prompt (bot_prefix ext) st renderer instruction_template instruct_renderer
                      impersonate continue
      in
      ebind (compose messages) (\<lambda>prompt.
      ebind (truncation_loop compose (get_encoded_length ext) (get_max_prompt_length ext st)
               messages prompt) (\<lambda>(prompt, messages).
      Inr (if also_return_rows then PromptRows prompt (map content messages)
           else Prompt prompt))))))"

subsection \<open>\<^verbatim>\<open>get_stopping_strings\<close>\<close>

text \<open>The loop \<^verbatim>\<open>for renderer in renderers\<close>, extending the list of strings.\<close>

fun probe_renderers :: "renderer list \<Rightarrow> string list \<Rightarrow> error + string list" where
  "probe_renderers [] strs = Inr strs"
| "probe_renderers (renderer # renderers) strs =
     ebind (get_generation_prompt renderer False True) (\<lambda>(prefix_bot, suffix_bot).
     ebind (get_generation_prompt renderer True True) (\<lambda>(prefix_user, suffix_user).
     probe_renderers renderers
       (strs @ [suffix_user @ prefix_bot, suffix_user @ prefix_user,
                suffix_bot @ prefix_bot, suffix_bot @ prefix_user])))"

text \<open>The renderers of the state's mode, in the order the source appends them.\<close>

definition mode_renderers :: "collaborators \<Rightarrow> state \<Rightarrow> error + renderer list" where
  "mode_renderers ext st =
     ebind (if mode st \<in> set [''instruct'', ''chat-instruct''] then
              ebind (from_string ext (instruction_template_str st)) (\<lambda>template.
              Inr [instruct_renderer_of template])
            else Inr []) (\<lambda>renderers.
     if mode st \<in> set [''chat'', ''chat-instruct''] then
       ebind (from_string ext (chat_template_str st)) (\<lambda>template.
       Inr (renderers @ [chat_renderer_of template st]))
     else Inr renderers)"

text \<open>
  The result is \<^verbatim>\<open>list(set(stopping_strings))\<close>, whose order Python leaves open: it
  is modelled as the set. The state is returned with the popped key removed.
\<close>

definition get_stopping_strings :: "collaborators \<Rightarrow> state \<Rightarrow> error + (string set \<times> state)" where
  "get_stopping_strings ext st =
     ebind (mode_renderers ext st) (\<lambda>renderers.
     ebind (probe_renderers renderers []) (\<lambda>strs.
     (case stopping_strings st of
        Some extra \<Rightarrow> Inr (set (strs @ extra), st\<lparr>stopping_strings := None\<rparr>)
      | None \<Rightarrow> Inr (set strs, st))))"

subsection \<open>The message list in the words of the specification\<close>

text \<open>
  The message list as the specification describes it: the optional system
  message, then the turns from the oldest to the newest, each giving its user
  message and then its assistant message, then the optional new user message.
\<close>

definition spec_system_message :: "state \<Rightarrow> message list" where
  "spec_system_message st =
     (let text = (if mode st = ''instruct'' then custom_system_message st else context_str st);
          shown = (if mode st = ''instruct'' then custom_system_message st
                   else replace_character_names (context_str st) (name1 st) (name2 st))
      in if strip text = [] then [] else [\<lparr>role = ''system'', content = shown\<rparr>])"

definition spec_turn :: "string \<times> string \<Rightarrow> message list" where
  "spec_turn turn =
     (let user_text = strip (fst turn); assistant_text = strip (snd turn)
      in (if user_text = [] \<or> user_text = ''<|BEGIN-VISIBLE-CHAT|>'' then []
          else [\<lparr>role = ''user'', content = user_text\<rparr>])
         @ (if assistant_text = [] then []
            else [\<lparr>role = ''assistant'', content = assistant_text\<rparr>]))"

definition spec_messages ::
  "string \<Rightarrow> state \<Rightarrow> (string \<times> string) list \<Rightarrow> bool \<Rightarrow> bool \<Rightarrow> message list" where
  "spec_messages user_input st hist impersonate continue =
     spec_system_message st
     @ concat (map spec_turn hist)
     @ (if strip user_input = [] \<or> impersonate \<or> continue then []
        else [\<lparr>role = ''user'', content = strip user_input\<rparr>])"

subsection \<open>The lists that the truncation loop visits\<close>

text \<open>The message list after \<open>k\<close> removals of the loop body.\<close>

fun after_removals :: "nat \<Rightarrow> message list \<Rightarrow> message list" where
  "after_removals 0 messages = messages"
| "after_removals (Suc k) messages =
     (case truncation_pop messages of
        Inl e \<Rightarrow> messages
      | Inr messages' \<Rightarrow> after_removals k messages')"

subsection \<open>Examples\<close>

text \<open>
  Concrete renderers on which the theorems below are instantiated.
  \<open>plain_renderer\<close> writes every message as its role, a colon and a space, the
  content and a line feed. \<open>mangling_renderer\<close> does the same after replacing every
  \<open><\<close> of the content. \<open>bos_renderer\<close> and \<open>two_marker_renderer\<close> write what
  \<open>plain_renderer\<close> writes behind one beginning-of-text marker and behind two.
  \<open>open_renderer\<close> closes no message: it writes a line feed, the role, a colon and
  a space, and the content.
\<close>

definition plain_renderer :: renderer where
  "plain_renderer messages =
     Inr (concat (map (\<lambda>m. role m @ '': '' @ content m @ ''\<newline>'') messages))"

definition mangling_renderer :: renderer where
  "mangling_renderer messages =
     Inr (concat (map (\<lambda>m. role m @ '': ''
                            @ map (\<lambda>c. if c = CHR ''<'' then CHR ''('' else c) (content m)
                            @ ''\<newline>'') messages))"

definition bos_renderer :: renderer where
  "bos_renderer messages =
     Inr (''<s>'' @ concat (map (\<lambda>m. role m @ '': '' @ content m @ ''\<newline>'') messages))"

definition two_marker_renderer :: renderer where
  "two_marker_renderer messages =
     Inr (''<|startoftext|><s>''
          @ concat (map (\<lambda>m. role m @ '': '' @ content m @ ''\<newline>'') messages))"

definition open_renderer :: renderer where
  "open_renderer messages =
     Inr (concat (map (\<lambda>m. ''\<newline>'' @ role m @ '': '' @ content m) messages))"

text \<open>An encoded length: one token per character.\<close>

definition code_points :: "string \<Rightarrow> int" where
  "code_points s = int (length s)"

definition example_messages :: "message list" where
  "example_messages =
     [\<lparr>role = ''system'', content = ''S''\<rparr>, \<lparr>role = ''user'', content = ''hello''\<rparr>,
      \<lparr>role = ''assistant'', content = ''hi''\<rparr>]"

text \<open>
  A stand-in for the template engine, which knows two templates, then a state
  and the collaborators, with a budget of 60 tokens.
\<close>

definition example_from_string :: "string \<Rightarrow> error + template" where
  "example_from_string source =
     (if source = ''open'' then Inr (\<lambda>kw. open_renderer) else Inr (\<lambda>kw. plain_renderer))"

definition example_state :: state where
  "example_state =
     \<lparr>mode = ''chat'', name1 = ''You'', name2 = ''Bot'', context_str = [],
      custom_system_message = [], chat_template_str = ''plain'',
      instruction_template_str = ''open'',
      chat_instruct_command = ''Continue as <|character|>.\<newline><|prompt|>'',
      history = \<lparr>internal = [], visible = []\<rparr>, stopping_strings = Some [''\<newline>You:'']\<rparr>"

definition example_collaborators :: collaborators where
  "example_collaborators =
     \<lparr>from_string = example_from_string, bot_prefix = (\<lambda>pre st. pre),
      get_encoded_length = code_points, get_max_prompt_length = (\<lambda>st. 60)\<rparr>"

section \<open>Properties\<close>

subsection \<open>Sequencing\<close>

lemma ebind_Inr [simp]: "ebind (Inr v) f = f v"
  by (simp add: ebind_def)

lemma ebind_Inl [simp]: "ebind (Inl e) f = Inl e"
  by (simp add: ebind_def)

lemma ebind_const: "\<exists>v. r = Inr v \<Longrightarrow> ebind r (\<lambda>x. Inr c) = Inr c"
  by auto

lemma remove_extra_bos_Nil: "remove_extra_bos [] = []"
  by (simp add: remove_extra_bos_def strip_leading.simps)

lemma slice_to_minus_0: "slice_to_minus s 0 = []"
  by (simp add: slice_to_minus_def)

subsection \<open>Splitting\<close>

lemma split_at_not_Nil: "split_at sep s \<noteq> []"
  by (induction s) (auto split: list.splits)

lemma split_at_absent: "\<not> sublist sep s \<Longrightarrow> split_at sep s = [s]"
proof (induction s)
  case Nil
  show ?case by simp
next
  case (Cons c cs)
  from Cons.prems have np: "\<not> prefix sep (c # cs)" and ns: "\<not> sublist sep cs"
    by (auto simp: sublist_Cons_right)
  from Cons.IH [OF ns] np show ?case by simp
qed

lemma user_message_1_not_Nil: "user_message_1 \<noteq> []"
  by (simp add: user_message_1_def)

lemma user_message_2_not_Nil: "user_message_2 \<noteq> []"
  by (simp add: user_message_2_def)

subsection \<open>A probe that does not find its sentinels\<close>

text \<open>
  Claim C7. When the text rendered for the two probe messages lacks one of the
  two sentinels, \<^verbatim>\<open>get_generation_prompt\<close> returns no pair: the index into the
  list of pieces is out of range and the \<^verbatim>\<open>IndexError\<close> reaches the caller.
\<close>

theorem probe_failure_surfaces:
  assumes r: "renderer (probe_messages impersonate) = Inr prompt"
    and missing: "\<not> sublist user_message_1 prompt \<or> \<not> sublist user_message_2 prompt"
  shows "get_generation_prompt renderer impersonate strip_trailing_spaces = Inl IndexError"
proof (cases "sublist user_message_2 prompt")
  case False
  then have s3: "split prompt user_message_2 = Inr [prompt]"
    by (simp add: split_def user_message_2_not_Nil split_at_absent)
  show ?thesis
    using r s3 split_at_not_Nil [of user_message_2]
    by (simp add: get_generation_prompt_def ebind_def split_def index_def
        user_message_1_not_Nil user_message_2_not_Nil split: sum.splits)
next
  case True
  with missing have "\<not> sublist user_message_1 prompt" by simp
  then have s1: "split prompt user_message_1 = Inr [prompt]"
    by (simp add: split_def user_message_1_not_Nil split_at_absent)
  show ?thesis
    using r s1 by (simp add: get_generation_prompt_def ebind_def index_def)
qed

theorem probe_failure_surfaces_witness:
  "mangling_renderer (probe_messages False) =
     Inr ''assistant: ((|user-message-1|>>\<newline>assistant: ((|user-message-2|>>\<newline>''
   \<and> \<not> sublist user_message_1
         ''assistant: ((|user-message-1|>>\<newline>assistant: ((|user-message-2|>>\<newline>''
   \<and> get_generation_prompt mangling_renderer False True = Inl IndexError"
proof -
  have r: "mangling_renderer (probe_messages False) =
      Inr ''assistant: ((|user-message-1|>>\<newline>assistant: ((|user-message-2|>>\<newline>''"
    by (simp add: mangling_renderer_def probe_messages_def user_message_1_def user_message_2_def)
  have m: "\<not> sublist user_message_1
      ''assistant: ((|user-message-1|>>\<newline>assistant: ((|user-message-2|>>\<newline>''"
    by (simp add: user_message_1_def sublist_Cons_right)
  show ?thesis
    using probe_failure_surfaces [of mangling_renderer False
        "''assistant: ((|user-message-1|>>\<newline>assistant: ((|user-message-2|>>\<newline>''" True] r m
    by simp
qed

subsection \<open>Leading markers\<close>

text \<open>
  Claim C5. \<^verbatim>\<open>remove_extra_bos\<close> strips the copies of \<open><s>\<close> first and the copies of
  \<open><|startoftext|>\<close> after them, once each. On a prompt where \<open><s>\<close> follows
  \<open><|startoftext|>\<close> the result still begins with \<open><s>\<close>, and a second application
  removes it: the function is not idempotent there. A template that writes both
  markers gets a composed prompt that begins with a marker.
\<close>

theorem remove_extra_bos_mixed_markers:
  "remove_extra_bos ''<|startoftext|><s>'' = ''<s>''
   \<and> remove_extra_bos (remove_extra_bos ''<|startoftext|><s>'') = []
   \<and> two_marker_renderer [\<lparr>role = ''user'', content = ''hello''\<rparr>]
       = Inr ''<|startoftext|><s>user: hello\<newline>''
   \<and> make_prompt (\<lambda>pre st. pre) example_state two_marker_renderer (\<lambda>kw. plain_renderer)
         plain_renderer False False [\<lparr>role = ''user'', content = ''hello''\<rparr>]
       = Inr ''<s>user: hello\<newline>assistant:''"
  by code_simp

subsection \<open>The message list\<close>

lemma list_insert_at_end_of_front: "list_insert (length front) x (front @ rest) = front @ x # rest"
  by (simp add: list_insert_def)

lemma insert_history_chronological:
  "insert_history turns (length front) (front @ rest)
     = front @ concat (map spec_turn (rev turns)) @ rest"
proof (induction turns arbitrary: rest)
  case Nil
  show ?case by simp
next
  case (Cons turn turns)
  obtain u a where turn: "turn = (u, a)" by (cases turn)
  have "insert_history (turn # turns) (length front) (front @ rest)
          = insert_history turns (length front) (front @ spec_turn turn @ rest)"
    by (simp add: turn spec_turn_def Let_def list_insert_at_end_of_front)
  then show ?case by (simp add: Cons.IH)
qed

lemma initial_messages_spec: "initial_messages st = spec_system_message st"
  by (simp add: initial_messages_def spec_system_message_def Let_def)

text \<open>
  Claim C2. The message list that \<^verbatim>\<open>generate_chat_prompt\<close> builds is the list of
  the specification: the system message of the mode iff its source text is not
  blank, the turns of the history in chronological order, each with its
  stripped user text (unless blank or the marker \<open><|BEGIN-VISIBLE-CHAT|>\<close>) before its
  stripped assistant text (unless blank), and the stripped new input iff it is
  not blank and neither flag is set.
\<close>

theorem build_messages_postcondition:
  "build_messages user_input st hist impersonate continue
     = spec_messages user_input st hist impersonate continue"
proof -
  have "insert_history (rev hist) (length (initial_messages st)) (initial_messages st @ [])
          = initial_messages st @ concat (map spec_turn (rev (rev hist))) @ []"
    by (rule insert_history_chronological)
  then show ?thesis
    by (simp add: build_messages_def spec_messages_def Let_def initial_messages_spec)
qed

theorem build_messages_postcondition_witness:
  "spec_messages '' hi '' \<lparr>mode = ''chat'', name1 = ''You'', name2 = ''Bot'',
       context_str = ''{{char}} talks to <USER>.'', custom_system_message = [],
       chat_template_str = [], instruction_template_str = [], chat_instruct_command = [],
       history = \<lparr>internal = [], visible = []\<rparr>, stopping_strings = None\<rparr>
       [(''<|BEGIN-VISIBLE-CHAT|>'', ''Hello!''), (''a'', '' b ''), (''  '', ''c'')] False False
     = [\<lparr>role = ''system'', content = ''Bot talks to You.''\<rparr>,
        \<lparr>role = ''assistant'', content = ''Hello!''\<rparr>,
        \<lparr>role = ''user'', content = ''a''\<rparr>,
        \<lparr>role = ''assistant'', content = ''b''\<rparr>,
        \<lparr>role = ''assistant'', content = ''c''\<rparr>,
        \<lparr>role = ''user'', content = ''hi''\<rparr>]"
  unfolding build_messages_postcondition [symmetric] by code_simp

subsection \<open>The truncation loop\<close>

lemma truncation_pop_Nil: "truncation_pop [] = Inl IndexError"
  by (simp add: truncation_pop_def list_pop_def)

lemma truncation_pop_Cons:
  "truncation_pop (x # xs) = Inr (if xs \<noteq> [] \<and> role x = ''system'' then x # tl xs else xs)"
  by (cases xs) (simp_all add: truncation_pop_def list_pop_def)

lemma truncation_pop_length:
  "truncation_pop messages = Inr messages' \<Longrightarrow> Suc (length messages') = length messages"
  by (cases messages) (auto simp: truncation_pop_Nil truncation_pop_Cons split: if_splits)

lemma after_removals_length:
  "k \<le> length messages \<Longrightarrow> length (after_removals k messages) = length messages - k"
proof (induction k arbitrary: messages)
  case 0
  show ?case by simp
next
  case (Suc k)
  then obtain x xs where m: "messages = x # xs" by (cases messages) auto
  obtain messages' where p: "truncation_pop messages = Inr messages'"
    by (simp add: m truncation_pop_Cons)
  from truncation_pop_length [OF p] Suc.prems have "k \<le> length messages'" by simp
  from Suc.IH [OF this] truncation_pop_length [OF p] show ?case by (simp add: p)
qed

lemma truncation_loop_stop:
  "messages = [] \<or> encoded_length prompt \<le> max_length \<Longrightarrow>
   truncation_loop compose encoded_length max_length messages prompt = Inr (prompt, messages)"
  by (subst truncation_loop.simps) auto

lemma truncation_loop_step:
  "messages \<noteq> [] \<Longrightarrow> max_length < encoded_length prompt \<Longrightarrow>
   truncation_pop messages = Inr messages' \<Longrightarrow>
   truncation_loop compose encoded_length max_length messages prompt =
     (case compose messages' of
        Inl e \<Rightarrow> Inl e
      | Inr prompt' \<Rightarrow> truncation_loop compose encoded_length max_length messages' prompt')"
  by (subst truncation_loop.simps) simp

lemma truncation_loop_run:
  "\<exists>k\<le>length messages.
     (\<exists>p. truncation_loop compose encoded_length max_length messages prompt
             = Inr (p, after_removals k messages)
          \<and> (after_removals k messages = [] \<or> encoded_length p \<le> max_length)
          \<and> (k = 0 \<and> p = prompt \<or> 0 < k \<and> compose (after_removals k messages) = Inr p))
     \<or> (\<exists>e. 0 < k \<and> compose (after_removals k messages) = Inl e
          \<and> truncation_loop compose encoded_length max_length messages prompt = Inl e)"
proof (induction compose encoded_length max_length messages prompt rule: truncation_loop.induct)
  case (1 compose encoded_length max_length messages prompt)
  show ?case
  proof (cases "messages \<noteq> [] \<and> max_length < encoded_length prompt")
    case False
    then have "truncation_loop compose encoded_length max_length messages prompt = Inr (prompt, messages)"
      by (intro truncation_loop_stop) auto
    with False show ?thesis by (intro exI [of _ 0]) auto
  next
    case True
    then obtain x xs where m: "messages = x # xs" by (cases messages) auto
    obtain messages' where p: "truncation_pop messages = Inr messages'"
      by (simp add: m truncation_pop_Cons)
    note len = truncation_pop_length [OF p]
    have step: "truncation_loop compose encoded_length max_length messages prompt =
        (case compose messages' of
           Inl e \<Rightarrow> Inl e
         | Inr prompt' \<Rightarrow> truncation_loop compose encoded_length max_length messages' prompt')"
      using True p by (intro truncation_loop_step) auto
    show ?thesis
    proof (cases "compose messages'")
      case (Inl e)
      with step p len show ?thesis by (intro exI [of _ 1]) auto
    next
      case (Inr prompt')
      from True have c: "0 < length messages \<and> max_length < encoded_length prompt" by simp
      from "1.IH" [OF c p Inr]
      obtain k where k: "k \<le> length messages'"
        and r: "(\<exists>p. truncation_loop compose encoded_length max_length messages' prompt'
                    = Inr (p, after_removals k messages')
                 \<and> (after_removals k messages' = [] \<or> encoded_length p \<le> max_length)
                 \<and> (k = 0 \<and> p = prompt' \<or> 0 < k \<and> compose (after_removals k messages') = Inr p))
             \<or> (\<exists>e. 0 < k \<and> compose (after_removals k messages') = Inl e
                 \<and> truncation_loop compose encoded_length max_length messages' prompt' = Inl e)"
        by blast
      have a: "after_removals (Suc k) messages = after_removals k messages'"
        by (simp add: p)
      have s: "truncation_loop compose encoded_length max_length messages prompt
                 = truncation_loop compose encoded_length max_length messages' prompt'"
        using step Inr by simp
      from k len have "Suc k \<le> length messages" by simp
      moreover from r Inr have
        "(\<exists>p. truncation_loop compose encoded_length max_length messages prompt
                    = Inr (p, after_removals (Suc k) messages)
                 \<and> (after_removals (Suc k) messages = [] \<or> encoded_length p \<le> max_length)
                 \<and> (Suc k = 0 \<and> p = prompt \<or> 0 < Suc k \<and> compose (after_removals (Suc k) messages) = Inr p))
             \<or> (\<exists>e. 0 < Suc k \<and> compose (after_removals (Suc k) messages) = Inl e
                 \<and> truncation_loop compose encoded_length max_length messages prompt = Inl e)"
        unfolding a s by (cases k) auto
      ultimately show ?thesis by blast
    qed
  qed
qed

lemma after_removals_system:
  "role m = ''system'' \<Longrightarrow> k \<le> length rest \<Longrightarrow> after_removals k (m # rest) = m # drop k rest"
proof (induction k arbitrary: rest)
  case 0
  show ?case by simp
next
  case (Suc k)
  then obtain r rs where rest: "rest = r # rs" by (cases rest) auto
  with Suc show ?case by (simp add: truncation_pop_Cons)
qed

lemma after_removals_all: "after_removals (length messages) messages = []"
proof (induction messages rule: length_induct)
  case (1 messages)
  show ?case
  proof (cases messages)
    case Nil
    then show ?thesis by simp
  next
    case (Cons x xs)
    obtain messages' where p: "truncation_pop messages = Inr messages'"
      by (simp add: Cons truncation_pop_Cons)
    from truncation_pop_length [OF p] have l: "length messages' = length xs" by (simp add: Cons)
    then have "length messages' < length messages" by (simp add: Cons)
    with 1 have "after_removals (length messages') messages' = []" by blast
    with l p Cons show ?thesis by simp
  qed
qed

lemma system_removed_last:
  "truncation_loop compose encoded_length max_length (m # rest) prompt = Inr (p, []) \<Longrightarrow>
   role m = ''system'' \<Longrightarrow>
   \<exists>q. max_length < encoded_length q \<and> (rest = [] \<and> q = prompt \<or> rest \<noteq> [] \<and> compose [m] = Inr q)"
proof (induction rest arbitrary: prompt)
  case Nil
  show ?case
  proof (cases "max_length < encoded_length prompt")
    case True
    then show ?thesis by auto
  next
    case False
    then have "truncation_loop compose encoded_length max_length [m] prompt = Inr (prompt, [m])"
      by (intro truncation_loop_stop) simp
    with Nil.prems show ?thesis by simp
  qed
next
  case (Cons r rs)
  have over: "max_length < encoded_length prompt"
  proof (rule ccontr)
    assume "\<not> max_length < encoded_length prompt"
    then have "truncation_loop compose encoded_length max_length (m # r # rs) prompt
                 = Inr (prompt, m # r # rs)"
      by (intro truncation_loop_stop) simp
    with Cons.prems show False by simp
  qed
  have pop: "truncation_pop (m # r # rs) = Inr (m # rs)"
    using Cons.prems(2) by (simp add: truncation_pop_Cons)
  have step: "truncation_loop compose encoded_length max_length (m # r # rs) prompt =
        (case compose (m # rs) of
           Inl e \<Rightarrow> Inl e
         | Inr prompt' \<Rightarrow> truncation_loop compose encoded_length max_length (m # rs) prompt')"
    using over pop by (intro truncation_loop_step) auto
  with Cons.prems obtain prompt' where c: "compose (m # rs) = Inr prompt'"
    and l: "truncation_loop compose encoded_length max_length (m # rs) prompt' = Inr (p, [])"
    by (cases "compose (m # rs)") auto
  from Cons.IH [OF l Cons.prems(2)] c show ?case by auto
qed

lemma truncation_loop_length:
  assumes "truncation_loop compose encoded_length max_length messages prompt = Inr (p, out)"
  shows "length out \<le> length messages"
proof -
  from truncation_loop_run [of messages compose encoded_length max_length prompt] assms
  obtain k where "k \<le> length messages" and "out = after_removals k messages" by auto
  then show ?thesis by (simp add: after_removals_length)
qed

lemma truncation_loop_budget:
  "truncation_loop compose encoded_length b1 messages prompt = Inr (p1, out1) \<Longrightarrow> b1 \<le> b2 \<Longrightarrow>
   \<exists>p2 out2. truncation_loop compose encoded_length b2 messages prompt = Inr (p2, out2)
      \<and> length out1 \<le> length out2"
proof (induction compose encoded_length b1 messages prompt rule: truncation_loop.induct)
  case (1 compose encoded_length b1 messages prompt)
  show ?case
  proof (cases "messages \<noteq> [] \<and> b2 < encoded_length prompt")
    case False
    then have "truncation_loop compose encoded_length b2 messages prompt = Inr (prompt, messages)"
      by (intro truncation_loop_stop) auto
    with truncation_loop_length [OF "1.prems"(1)] show ?thesis by simp
  next
    case True
    with "1.prems"(2) have c1: "messages \<noteq> [] \<and> b1 < encoded_length prompt" by simp
    then obtain x xs where m: "messages = x # xs" by (cases messages) auto
    obtain messages' where p: "truncation_pop messages = Inr messages'"
      by (simp add: m truncation_pop_Cons)
    have step1: "truncation_loop compose encoded_length b1 messages prompt =
        (case compose messages' of
           Inl e \<Rightarrow> Inl e
         | Inr prompt' \<Rightarrow> truncation_loop compose encoded_length b1 messages' prompt')"
      using c1 p by (intro truncation_loop_step) auto
    have step2: "truncation_loop compose encoded_length b2 messages prompt =
        (case compose messages' of
           Inl e \<Rightarrow> Inl e
         | Inr prompt' \<Rightarrow> truncation_loop compose encoded_length b2 messages' prompt')"
      using True p by (intro truncation_loop_step) auto
    from step1 "1.prems"(1) obtain prompt' where c: "compose messages' = Inr prompt'"
      and l: "truncation_loop compose encoded_length b1 messages' prompt' = Inr (p1, out1)"
      by (cases "compose messages'") auto
    from c1 have c1': "0 < length messages \<and> b1 < encoded_length prompt" by simp
    from "1.IH" [OF c1' p c l "1.prems"(2)] step2 c show ?thesis by simp
  qed
qed

lemma example_loop_30:
  "truncation_loop plain_renderer code_points 30 example_messages
       ''system: S\<newline>user: hello\<newline>assistant: hi\<newline>''
     = Inr (''system: S\<newline>assistant: hi\<newline>'',
            [\<lparr>role = ''system'', content = ''S''\<rparr>, \<lparr>role = ''assistant'', content = ''hi''\<rparr>])"
  by (simp add: truncation_loop.simps truncation_pop_def list_pop_def plain_renderer_def
      code_points_def example_messages_def)

lemma example_loop_5:
  "truncation_loop plain_renderer code_points 5 example_messages
       ''system: S\<newline>user: hello\<newline>assistant: hi\<newline>''
     = Inr ([], [])"
  by (simp add: truncation_loop.simps truncation_pop_def list_pop_def plain_renderer_def
      code_points_def example_messages_def)

text \<open>
  The loop is a total function: it ends after some number \<open>k\<close> of iterations that
  is at most the number of messages, each iteration having removed one message.
  It ends either with a prompt that fits the budget or with the empty list, and
  then it returns the prompt composed for that list (the one it was given when
  \<open>k = 0\<close>). The only other outcome is an exception of the composing function,
  which the loop passes on.
\<close>

lemma truncation_terminates:
  "\<exists>k\<le>length messages.
     length (after_removals k messages) = length messages - k
     \<and> ((\<exists>p. truncation_loop compose encoded_length max_length messages prompt
                = Inr (p, after_removals k messages)
             \<and> (after_removals k messages = [] \<or> encoded_length p \<le> max_length)
             \<and> (k = 0 \<and> p = prompt \<or> 0 < k \<and> compose (after_removals k messages) = Inr p))
        \<or> (\<exists>e. 0 < k \<and> compose (after_removals k messages) = Inl e
             \<and> truncation_loop compose encoded_length max_length messages prompt = Inl e))"
proof -
  from truncation_loop_run [of messages compose encoded_length max_length prompt]
  obtain k where k: "k \<le> length messages"
    and r: "(\<exists>p. truncation_loop compose encoded_length max_length messages prompt
                = Inr (p, after_removals k messages)
             \<and> (after_removals k messages = [] \<or> encoded_length p \<le> max_length)
             \<and> (k = 0 \<and> p = prompt \<or> 0 < k \<and> compose (after_removals k messages) = Inr p))
        \<or> (\<exists>e. 0 < k \<and> compose (after_removals k messages) = Inl e
             \<and> truncation_loop compose encoded_length max_length messages prompt = Inl e)"
    by blast
  from k r after_removals_length [OF k] show ?thesis by blast
qed

text \<open>
  Claim C3. With a system message first, a step of the loop removes the message
  at index 1 while there is one, and the message at index 0 otherwise; so the
  first removals, as many as there are other messages, keep the system message
  in front, and the list the loop returns is either the system message followed
  by a tail of the other messages, or empty, which happens only when the system
  message alone was still over the budget. The prompt returned is the one
  composed for the returned list (the initial one when nothing was removed).
\<close>

theorem system_message_preserved:
  assumes sys: "role m = ''system''"
  shows "truncation_pop (m # m' # ms) = Inr (m # ms)
     \<and> truncation_pop [x] = Inr []
     \<and> (role x \<noteq> ''system'' \<longrightarrow> truncation_pop (x # xs) = Inr xs)
     \<and> (\<forall>k\<le>length rest. after_removals k (m # rest) = m # drop k rest)
     \<and> after_removals (Suc (length rest)) (m # rest) = []
     \<and> (truncation_loop compose encoded_length max_length (m # rest) prompt = Inr (p, out) \<longrightarrow>
          (out = m # rest \<and> p = prompt \<or> compose out = Inr p)
          \<and> ((\<exists>k\<le>length rest. out = m # drop k rest)
             \<or> out = [] \<and> (\<exists>q. max_length < encoded_length q
                   \<and> (rest = [] \<and> q = prompt \<or> rest \<noteq> [] \<and> compose [m] = Inr q))))"
proof (intro conjI impI allI)
  show "truncation_pop (m # m' # ms) = Inr (m # ms)"
    using sys by (simp add: truncation_pop_Cons)
  show "truncation_pop [x] = Inr []"
    by (simp add: truncation_pop_Cons)
  show "truncation_pop (x # xs) = Inr xs" if "role x \<noteq> ''system''"
    using that by (simp add: truncation_pop_Cons)
  show "after_removals k (m # rest) = m # drop k rest" if "k \<le> length rest" for k
    using sys that by (rule after_removals_system)
  show last: "after_removals (Suc (length rest)) (m # rest) = []"
    using after_removals_all [of "m # rest"] by simp
  assume run: "truncation_loop compose encoded_length max_length (m # rest) prompt = Inr (p, out)"
  from truncation_loop_run [of "m # rest" compose encoded_length max_length prompt] run
  obtain k where k: "k \<le> Suc (length rest)" and out: "out = after_removals k (m # rest)"
    and p: "k = 0 \<and> p = prompt \<or> 0 < k \<and> compose out = Inr p"
    by auto
  from p out show "out = m # rest \<and> p = prompt \<or> compose out = Inr p" by auto
  show "(\<exists>k\<le>length rest. out = m # drop k rest)
     \<or> out = [] \<and> (\<exists>q. max_length < encoded_length q
           \<and> (rest = [] \<and> q = prompt \<or> rest \<noteq> [] \<and> compose [m] = Inr q))"
  proof (cases "k \<le> length rest")
    case True
    with out after_removals_system [OF sys True] show ?thesis by blast
  next
    case False
    with k have "k = Suc (length rest)" by simp
    with out last have e: "out = []" by simp
    with run system_removed_last [OF _ sys] show ?thesis by blast
  qed
qed

theorem system_message_preserved_witness:
  "role \<lparr>role = ''system'', content = ''S''\<rparr> = ''system''
   \<and> truncation_loop plain_renderer code_points 30
       [\<lparr>role = ''system'', content = ''S''\<rparr>, \<lparr>role = ''user'', content = ''hello''\<rparr>,
        \<lparr>role = ''assistant'', content = ''hi''\<rparr>]
       ''system: S\<newline>user: hello\<newline>assistant: hi\<newline>''
     = Inr (''system: S\<newline>assistant: hi\<newline>'',
            [\<lparr>role = ''system'', content = ''S''\<rparr>, \<lparr>role = ''assistant'', content = ''hi''\<rparr>])
   \<and> truncation_pop [\<lparr>role = ''system'', content = ''S''\<rparr>, \<lparr>role = ''user'', content = ''hello''\<rparr>,
        \<lparr>role = ''assistant'', content = ''hi''\<rparr>]
     = Inr [\<lparr>role = ''system'', content = ''S''\<rparr>, \<lparr>role = ''assistant'', content = ''hi''\<rparr>]
   \<and> after_removals 2 [\<lparr>role = ''system'', content = ''S''\<rparr>, \<lparr>role = ''user'', content = ''hello''\<rparr>,
        \<lparr>role = ''assistant'', content = ''hi''\<rparr>] = [\<lparr>role = ''system'', content = ''S''\<rparr>]
   \<and> plain_renderer [\<lparr>role = ''system'', content = ''S''\<rparr>, \<lparr>role = ''assistant'', content = ''hi''\<rparr>]
     = Inr ''system: S\<newline>assistant: hi\<newline>''"
proof -
  have sys: "role \<lparr>role = ''system'', content = ''S''\<rparr> = ''system''" by simp
  note t = system_message_preserved [OF sys,
      where m' = "\<lparr>role = ''user'', content = ''hello''\<rparr>"
        and ms = "[\<lparr>role = ''assistant'', content = ''hi''\<rparr>]"
        and rest = "[\<lparr>role = ''user'', content = ''hello''\<rparr>, \<lparr>role = ''assistant'', content = ''hi''\<rparr>]"
        and compose = plain_renderer and encoded_length = code_points and max_length = 30
        and prompt = "''system: S\<newline>user: hello\<newline>assistant: hi\<newline>''"
        and p = "''system: S\<newline>assistant: hi\<newline>''"
        and out = "[\<lparr>role = ''system'', content = ''S''\<rparr>, \<lparr>role = ''assistant'', content = ''hi''\<rparr>]"]
  have run: "truncation_loop plain_renderer code_points 30
       [\<lparr>role = ''system'', content = ''S''\<rparr>, \<lparr>role = ''user'', content = ''hello''\<rparr>,
        \<lparr>role = ''assistant'', content = ''hi''\<rparr>]
       ''system: S\<newline>user: hello\<newline>assistant: hi\<newline>''
     = Inr (''system: S\<newline>assistant: hi\<newline>'',
            [\<lparr>role = ''system'', content = ''S''\<rparr>, \<lparr>role = ''assistant'', content = ''hi''\<rparr>])"
    using example_loop_30 by (simp add: example_messages_def)
  from t have a: "truncation_pop [\<lparr>role = ''system'', content = ''S''\<rparr>, \<lparr>role = ''user'', content = ''hello''\<rparr>,
        \<lparr>role = ''assistant'', content = ''hi''\<rparr>]
     = Inr [\<lparr>role = ''system'', content = ''S''\<rparr>, \<lparr>role = ''assistant'', content = ''hi''\<rparr>]"
    by blast
  from t have "\<forall>k\<le>2. after_removals k [\<lparr>role = ''system'', content = ''S''\<rparr>, \<lparr>role = ''user'', content = ''hello''\<rparr>,
        \<lparr>role = ''assistant'', content = ''hi''\<rparr>] = \<lparr>role = ''system'', content = ''S''\<rparr> # drop k [\<lparr>role = ''user'', content = ''hello''\<rparr>,
        \<lparr>role = ''assistant'', content = ''hi''\<rparr>]"
    by simp
  then have b: "after_removals 2 [\<lparr>role = ''system'', content = ''S''\<rparr>, \<lparr>role = ''user'', content = ''hello''\<rparr>,
        \<lparr>role = ''assistant'', content = ''hi''\<rparr>] = [\<lparr>role = ''system'', content = ''S''\<rparr>]"
    by (metis drop_Suc_Cons drop0 drop_Nil order_refl numeral_2_eq_2)
  from t run have c: "plain_renderer [\<lparr>role = ''system'', content = ''S''\<rparr>, \<lparr>role = ''assistant'', content = ''hi''\<rparr>]
     = Inr ''system: S\<newline>assistant: hi\<newline>''"
    by auto
  from sys run a b c show ?thesis by blast
qed

text \<open>
  Claim C6. For budgets \<open>b1 < b2\<close>, when the loop returns under \<open>b1\<close> it returns
  under \<open>b2\<close> too, and it retains at least as many messages.
\<close>

theorem truncation_monotone:
  assumes "b1 < b2"
    and "truncation_loop compose encoded_length b1 messages prompt = Inr (p1, out1)"
  shows "\<exists>p2 out2. truncation_loop compose encoded_length b2 messages prompt = Inr (p2, out2)
           \<and> length out1 \<le> length out2"
  using truncation_loop_budget [OF assms(2), of b2] assms(1) by simp

theorem truncation_monotone_witness:
  "(5::int) < 30
   \<and> truncation_loop plain_renderer code_points 5 example_messages
       ''system: S\<newline>user: hello\<newline>assistant: hi\<newline>'' = Inr ([], [])
   \<and> (\<exists>p2 out2. truncation_loop plain_renderer code_points 30 example_messages
          ''system: S\<newline>user: hello\<newline>assistant: hi\<newline>'' = Inr (p2, out2)
        \<and> length ([] :: message list) \<le> length out2)"
proof -
  have lt: "(5::int) < 30" by simp
  from truncation_monotone [OF lt example_loop_5] lt example_loop_5 show ?thesis by blast
qed

text \<open>
  Claim C9. The loop ends, as \<open>truncation_terminates\<close> says, but the empty list is
  not always a graceful end. In mode \<open>chat-instruct\<close> with \<^verbatim>\<open>_continue\<close> the closure
  \<^verbatim>\<open>make_prompt\<close> reads \<^verbatim>\<open>messages[-1]\<close>: when a reply to continue is longer than the
  budget the loop empties the list and the \<^verbatim>\<open>IndexError\<close> reaches the caller. The
  same state returns a minimal prompt without \<^verbatim>\<open>_continue\<close>, and so does mode
  \<open>chat\<close> with it.
\<close>

theorem truncation_to_empty_raises:
  "generate_chat_prompt example_collaborators []
       (example_state\<lparr>mode := ''chat-instruct'', instruction_template_str := ''plain''\<rparr>)
       False True False
       (Some \<lparr>internal = [(''a'', ''The reply to continue is this long one, longer than the budget allows.'')],
              visible = []\<rparr>)
     = Inl IndexError
   \<and> generate_chat_prompt example_collaborators []
       (example_state\<lparr>mode := ''chat-instruct'', instruction_template_str := ''plain''\<rparr>)
       False False False
       (Some \<lparr>internal = [(''a'', ''The reply to continue is this long one, longer than the budget allows.'')],
              visible = []\<rparr>)
     = Inr (Prompt ''user: Continue as Bot.\<newline>\<newline>assistant: assistant:'')
   \<and> generate_chat_prompt example_collaborators [] example_state
       False True False
       (Some \<lparr>internal = [(''a'', ''The reply to continue is this long one, longer than the budget allows.'')],
              visible = []\<rparr>)
     = Inr (Prompt [])"
  by code_simp

subsection \<open>Probing the example renderers\<close>

lemma probe_open_bot: "get_generation_prompt open_renderer False True = Inr (''\<newline>assistant:'', [])"
  by code_simp

lemma probe_open_user: "get_generation_prompt open_renderer True True = Inr (''\<newline>user:'', [])"
  by code_simp

lemma probe_plain_bot: "get_generation_prompt plain_renderer False True = Inr (''assistant:'', ''\<newline>'')"
  by code_simp

lemma probe_plain_user: "get_generation_prompt plain_renderer True True = Inr (''user:'', ''\<newline>'')"
  by code_simp

lemma open_renderer_example:
  "open_renderer example_messages = Inr ''\<newline>system: S\<newline>user: hello\<newline>assistant: hi''"
  by code_simp

lemma plain_renderer_example:
  "plain_renderer example_messages = Inr ''system: S\<newline>user: hello\<newline>assistant: hi\<newline>''"
  by code_simp

subsection \<open>An empty suffix\<close>

text \<open>
  Claim C10. The suffix is cut off with \<^verbatim>\<open>prompt[:-len(suffix)]\<close>, and for an empty
  suffix that slice is empty. So in the modes other than \<open>chat-instruct\<close> a
  continuation whose probed suffix is empty composes the empty prompt, whatever
  the renderer wrote; and in mode \<open>chat-instruct\<close>, with or without continuation,
  an empty assistant suffix of the instruction renderer does the same to the
  rendered outer messages.
\<close>

theorem empty_suffix_collapse:
  "(mode st \<noteq> ''chat-instruct''
      \<and> renderer messages = Inr rendered
      \<and> get_generation_prompt renderer impersonate True = Inr (pre, [])
    \<longrightarrow> make_prompt hook st renderer instruction_template instruct_renderer impersonate True messages
          = Inr [])
   \<and> (mode st = ''chat-instruct''
      \<and> (if continue then renderer (butlast messages) else renderer messages) = Inr rendered
      \<and> (continue \<longrightarrow> messages \<noteq> [])
      \<and> get_generation_prompt renderer impersonate (\<not> continue) = Inr (pre, suf)
      \<and> (\<forall>outer. \<exists>text. render_plain instruction_template outer = Inr text)
      \<and> get_generation_prompt instruct_renderer False True = Inr (pre', [])
    \<longrightarrow> make_prompt hook st renderer instruction_template instruct_renderer impersonate continue messages
          = Inr [])"
proof (intro conjI impI)
  assume "mode st \<noteq> ''chat-instruct''
      \<and> renderer messages = Inr rendered
      \<and> get_generation_prompt renderer impersonate True = Inr (pre, [])"
  then show "make_prompt hook st renderer instruction_template instruct_renderer impersonate True messages
          = Inr []"
    by (simp add: make_prompt_def slice_to_minus_0 remove_extra_bos_Nil)
next
  assume a: "mode st = ''chat-instruct''
      \<and> (if continue then renderer (butlast messages) else renderer messages) = Inr rendered
      \<and> (continue \<longrightarrow> messages \<noteq> [])
      \<and> get_generation_prompt renderer impersonate (\<not> continue) = Inr (pre, suf)
      \<and> (\<forall>outer. \<exists>text. render_plain instruction_template outer = Inr text)
      \<and> get_generation_prompt instruct_renderer False True = Inr (pre', [])"
  then have total: "\<And>outer. \<exists>text. render_plain instruction_template outer = Inr text"
    by blast
  show "make_prompt hook st renderer instruction_template instruct_renderer impersonate continue messages
          = Inr []"
  proof (cases continue)
    case True
    with a have r: "renderer (butlast messages) = Inr rendered" and ne: "messages \<noteq> []"
      and p: "get_generation_prompt renderer impersonate False = Inr (pre, suf)"
      and m: "mode st = ''chat-instruct''"
      and e: "get_generation_prompt instruct_renderer False True = Inr (pre', [])"
      by simp_all
    show ?thesis
      unfolding make_prompt_def Let_def
      using True r ne p m e
      by (simp add: index_last_def slice_to_minus_0 remove_extra_bos_Nil ebind_const total)
  next
    case False
    with a have r: "renderer messages = Inr rendered"
      and p: "get_generation_prompt renderer impersonate True = Inr (pre, suf)"
      and m: "mode st = ''chat-instruct''"
      and e: "get_generation_prompt instruct_renderer False True = Inr (pre', [])"
      by simp_all
    show ?thesis
      unfolding make_prompt_def Let_def
      using False r p m e
      by (simp add: slice_to_minus_0 remove_extra_bos_Nil ebind_const total)
  qed
qed

theorem empty_suffix_collapse_witness:
  "get_generation_prompt open_renderer False True = Inr (''\<newline>assistant:'', [])
   \<and> open_renderer example_messages = Inr ''\<newline>system: S\<newline>user: hello\<newline>assistant: hi''
   \<and> make_prompt (\<lambda>pre st. pre) example_state open_renderer (\<lambda>kw. open_renderer) open_renderer
         False True example_messages = Inr []
   \<and> make_prompt (\<lambda>pre st. pre) (example_state\<lparr>mode := ''chat-instruct''\<rparr>) plain_renderer
         (\<lambda>kw. open_renderer) open_renderer False False example_messages = Inr []"
proof -
  have m1: "mode example_state \<noteq> ''chat-instruct''"
    by (simp add: example_state_def)
  have total: "\<forall>outer. \<exists>text. render_plain (\<lambda>kw. open_renderer) outer = Inr text"
    by (simp add: render_plain_def open_renderer_def)
  have a: "make_prompt (\<lambda>pre st. pre) example_state open_renderer (\<lambda>kw. open_renderer) open_renderer
         False True example_messages = Inr []"
    using empty_suffix_collapse [where st = example_state and renderer = open_renderer
        and messages = example_messages and impersonate = False
        and rendered = "''\<newline>system: S\<newline>user: hello\<newline>assistant: hi''"
        and pre = "''\<newline>assistant:''", THEN conjunct1]
      m1 open_renderer_example probe_open_bot
    by blast
  have b: "make_prompt (\<lambda>pre st. pre) (example_state\<lparr>mode := ''chat-instruct''\<rparr>) plain_renderer
         (\<lambda>kw. open_renderer) open_renderer False False example_messages = Inr []"
    using empty_suffix_collapse [where st = "example_state\<lparr>mode := ''chat-instruct''\<rparr>"
        and renderer = plain_renderer and messages = example_messages and impersonate = False
        and continue = False and instruction_template = "\<lambda>kw. open_renderer"
        and instruct_renderer = open_renderer
        and rendered = "''system: S\<newline>user: hello\<newline>assistant: hi\<newline>''"
        and pre = "''assistant:''" and suf = "''\<newline>''" and pre' = "''\<newline>assistant:''",
        THEN conjunct2]
      plain_renderer_example probe_plain_bot probe_open_bot total
    by simp
  from probe_open_bot open_renderer_example a b show ?thesis by blast
qed

subsection \<open>Stopping strings\<close>

text \<open>
  Claim C8. \<^verbatim>\<open>get_stopping_strings\<close> returns the set of the four combinations of
  suffix and prefix for the instruction renderer in the modes \<open>instruct\<close> and
  \<open>chat-instruct\<close>, the same four for the chat renderer in the modes \<open>chat\<close> and
  \<open>chat-instruct\<close>, and the extra strings of the state, which it pops. The
  hypotheses say that the templates of the mode compile and that their probes
  return.
\<close>

theorem stopping_strings_union:
  assumes instruct:
      "mode st \<in> {''instruct'', ''chat-instruct''} \<Longrightarrow>
         from_string ext (instruction_template_str st) = Inr instruction_template
         \<and> get_generation_prompt (instruct_renderer_of instruction_template) False True
             = Inr (prefix_bot_i, suffix_bot_i)
         \<and> get_generation_prompt (instruct_renderer_of instruction_template) True True
             = Inr (prefix_user_i, suffix_user_i)"
    and chat:
      "mode st \<in> {''chat'', ''chat-instruct''} \<Longrightarrow>
         from_string ext (chat_template_str st) = Inr chat_template
         \<and> get_generation_prompt (chat_renderer_of chat_template st) False True
             = Inr (prefix_bot_c, suffix_bot_c)
         \<and> get_generation_prompt (chat_renderer_of chat_template st) True True
             = Inr (prefix_user_c, suffix_user_c)"
  shows "get_stopping_strings ext st =
     Inr ((if mode st \<in> {''instruct'', ''chat-instruct''}
           then {suffix_user_i @ prefix_bot_i, suffix_user_i @ prefix_user_i,
                 suffix_bot_i @ prefix_bot_i, suffix_bot_i @ prefix_user_i}
           else {})
          \<union> (if mode st \<in> {''chat'', ''chat-instruct''}
             then {suffix_user_c @ prefix_bot_c, suffix_user_c @ prefix_user_c,
                   suffix_bot_c @ prefix_bot_c, suffix_bot_c @ prefix_user_c}
             else {})
          \<union> (case stopping_strings st of None \<Rightarrow> {} | Some extra \<Rightarrow> set extra),
          st\<lparr>stopping_strings := None\<rparr>)"
proof -
  have unchanged: "stopping_strings st = None \<Longrightarrow> st\<lparr>stopping_strings := None\<rparr> = st"
    by simp
  consider (i) "mode st = ''instruct''" | (ci) "mode st = ''chat-instruct''"
    | (c) "mode st = ''chat''"
    | (other) "mode st \<notin> {''instruct'', ''chat-instruct'', ''chat''}"
    by blast
  then show ?thesis
  proof cases
    case i
    with instruct show ?thesis
      by (cases "stopping_strings st")
        (auto simp: get_stopping_strings_def mode_renderers_def unchanged)
  next
    case ci
    with instruct chat show ?thesis
      by (cases "stopping_strings st")
        (auto simp: get_stopping_strings_def mode_renderers_def unchanged)
  next
    case c
    with chat show ?thesis
      by (cases "stopping_strings st")
        (auto simp: get_stopping_strings_def mode_renderers_def unchanged)
  next
    case other
    then show ?thesis
      by (cases "stopping_strings st")
        (auto simp: get_stopping_strings_def mode_renderers_def unchanged)
  qed
qed

theorem stopping_strings_union_witness:
  "mode (example_state\<lparr>mode := ''chat-instruct''\<rparr>) \<in> {''chat'', ''chat-instruct''}
   \<and> get_stopping_strings example_collaborators (example_state\<lparr>mode := ''chat-instruct''\<rparr>)
     = Inr ({''\<newline>assistant:'', ''\<newline>user:'', ''\<newline>You:''},
            example_state\<lparr>mode := ''chat-instruct'', stopping_strings := None\<rparr>)"
proof -
  have i: "from_string example_collaborators
             (instruction_template_str (example_state\<lparr>mode := ''chat-instruct''\<rparr>))
           = Inr (\<lambda>kw. open_renderer)"
    by (simp add: example_collaborators_def example_state_def example_from_string_def)
  have c: "from_string example_collaborators
             (chat_template_str (example_state\<lparr>mode := ''chat-instruct''\<rparr>))
           = Inr (\<lambda>kw. plain_renderer)"
    by (simp add: example_collaborators_def example_state_def example_from_string_def)
  have e: "stopping_strings (example_state\<lparr>mode := ''chat-instruct''\<rparr>) = Some [''\<newline>You:'']"
    by (simp add: example_state_def)
  show ?thesis
    using stopping_strings_union [where st = "example_state\<lparr>mode := ''chat-instruct''\<rparr>"
        and ext = example_collaborators
        and instruction_template = "\<lambda>kw. open_renderer" and chat_template = "\<lambda>kw. plain_renderer"
        and prefix_bot_i = "''\<newline>assistant:''" and suffix_bot_i = "[]"
        and prefix_user_i = "''\<newline>user:''" and suffix_user_i = "[]"
        and prefix_bot_c = "''assistant:''" and suffix_bot_c = "''\<newline>''"
        and prefix_user_c = "''user:''" and suffix_user_c = "''\<newline>''"]
      i c e probe_open_bot probe_open_user probe_plain_bot probe_plain_user
    by (auto simp: instruct_renderer_of_def chat_renderer_of_def)
qed

subsection \<open>Where a separator is first found\<close>

text \<open>
  The two sentinels overlap neither themselves nor each other: no proper tail of
  one begins the other, and neither starts inside the other.
\<close>

lemma below_20_cases:
  "j < (20::nat) \<Longrightarrow> j \<in> {0, 1, 2, 3, 4, 5, 6, 7, 8, 9, 10, 11, 12, 13, 14, 15, 16, 17, 18, 19}"
  unfolding insert_iff empty_iff by presburger

lemma sentinel_lengths: "length user_message_1 = 20" "length user_message_2 = 20"
  by (simp_all add: user_message_1_def user_message_2_def)

lemma tail_1_1: "0 < j \<Longrightarrow> j < 20 \<Longrightarrow> \<not> prefix (drop j user_message_1) (user_message_1 @ t)"
  by (drule below_20_cases) (auto simp: user_message_1_def)

lemma tail_1_2: "0 < j \<Longrightarrow> j < 20 \<Longrightarrow> \<not> prefix (drop j user_message_1) (user_message_2 @ t)"
  by (drule below_20_cases) (auto simp: user_message_1_def user_message_2_def)

lemma tail_2_1: "0 < j \<Longrightarrow> j < 20 \<Longrightarrow> \<not> prefix (drop j user_message_2) (user_message_1 @ t)"
  by (drule below_20_cases) (auto simp: user_message_1_def user_message_2_def)

lemma tail_2_2: "0 < j \<Longrightarrow> j < 20 \<Longrightarrow> \<not> prefix (drop j user_message_2) (user_message_2 @ t)"
  by (drule below_20_cases) (auto simp: user_message_2_def)

lemma within_1_2: "i < 20 \<Longrightarrow> \<not> prefix user_message_1 (drop i user_message_2 @ t)"
  by (drule below_20_cases) (auto simp: user_message_1_def user_message_2_def)

lemma within_2_1: "i < 20 \<Longrightarrow> \<not> prefix user_message_2 (drop i user_message_1 @ t)"
  by (drule below_20_cases) (auto simp: user_message_1_def user_message_2_def)

lemma split_at_match: "sep \<noteq> [] \<Longrightarrow> split_at sep (sep @ r) = [] # split_at sep r"
  by (cases sep) simp_all

lemma split_at_skip:
  "\<forall>i<length a. \<not> prefix sep (drop i a @ r) \<Longrightarrow>
   split_at sep (a @ r) = (a @ hd (split_at sep r)) # tl (split_at sep r)"
proof (induction a)
  case Nil
  show ?case by (simp add: split_at_not_Nil)
next
  case (Cons c a)
  from Cons.prems have "\<not> prefix sep (drop 0 (c # a) @ r)"
    by (metis length_greater_0_conv list.distinct(1))
  then have here: "\<not> prefix sep (c # a @ r)" by simp
  have "\<forall>i<length a. \<not> prefix sep (drop i a @ r)"
  proof (intro allI impI)
    fix i assume "i < length a"
    then have "Suc i < length (c # a)" by simp
    with Cons.prems have "\<not> prefix sep (drop (Suc i) (c # a) @ r)" by blast
    then show "\<not> prefix sep (drop i a @ r)" by simp
  qed
  from Cons.IH [OF this] here show ?case by simp
qed

lemma split_at_first:
  assumes "sep \<noteq> []" and "\<forall>i<length a. \<not> prefix sep (drop i a @ sep @ r)"
  shows "split_at sep (a @ sep @ r) = a # split_at sep r"
  using split_at_skip [OF assms(2)] by (simp add: split_at_match [OF assms(1)])

lemma overlap_tail:
  assumes p: "prefix sep (x @ y)" and x: "x \<noteq> []" and n: "\<not> sublist sep x"
  shows "\<exists>j. 0 < j \<and> j < length sep \<and> prefix (drop j sep) y"
proof -
  from p have "prefix sep x \<or> (\<exists>us. sep = x @ us \<and> prefix us y)"
    by (simp add: prefix_append)
  moreover from n have "\<not> prefix sep x" by (auto simp: prefix_def)
  ultimately obtain us where sep: "sep = x @ us" and us: "prefix us y" by blast
  from n sep have "us \<noteq> []" by auto
  with sep x us show ?thesis by (intro exI [of _ "length x"]) simp
qed

lemma no_start_in:
  assumes n: "\<not> sublist sep a"
    and t: "\<And>j. 0 < j \<Longrightarrow> j < length sep \<Longrightarrow> \<not> prefix (drop j sep) r"
  shows "\<forall>i<length a. \<not> prefix sep (drop i a @ r)"
proof (intro allI impI notI)
  fix i assume i: "i < length a" and p: "prefix sep (drop i a @ r)"
  from i have x: "drop i a \<noteq> []" by simp
  have "sublist (drop i a) a" by (metis append_take_drop_id sublist_append_leftI)
  with n have "\<not> sublist sep (drop i a)" by (meson sublist_order.order_trans)
  from overlap_tail [OF p x this] t show False by blast
qed

lemma no_start_append:
  assumes a: "\<forall>i<length a. \<not> prefix sep (drop i a @ b @ r)"
    and b: "\<forall>i<length b. \<not> prefix sep (drop i b @ r)"
  shows "\<forall>i<length (a @ b). \<not> prefix sep (drop i (a @ b) @ r)"
proof (intro allI impI)
  fix i assume i: "i < length (a @ b)"
  show "\<not> prefix sep (drop i (a @ b) @ r)"
  proof (cases "i < length a")
    case True
    with a show ?thesis by simp
  next
    case False
    with i have "i - length a < length b" by simp
    with b False show ?thesis by simp
  qed
qed

lemma sublist_of_append:
  "\<not> sublist sep (a @ b) \<Longrightarrow> \<not> sublist sep a \<and> \<not> sublist sep b"
  by (auto simp: sublist_append)

lemma probe_split_1:
  assumes n1: "\<not> sublist user_message_1 (suf @ pre)"
  shows "\<exists>q. index (split_at user_message_1
                 (pre @ user_message_1 @ suf @ pre @ user_message_2 @ suf)) 1
           = Inr ((suf @ pre) @ user_message_2 @ q)"
proof -
  from sublist_of_append [OF n1] have np: "\<not> sublist user_message_1 pre" by simp
  have "\<forall>i<length pre. \<not> prefix user_message_1
          (drop i pre @ user_message_1 @ suf @ pre @ user_message_2 @ suf)"
    by (rule no_start_in [OF np]) (simp add: tail_1_1 sentinel_lengths)
  then have first: "split_at user_message_1 (pre @ user_message_1 @ suf @ pre @ user_message_2 @ suf)
      = pre # split_at user_message_1 (suf @ pre @ user_message_2 @ suf)"
    by (rule split_at_first [OF user_message_1_not_Nil])
  have a: "\<forall>i<length (suf @ pre). \<not> prefix user_message_1
          (drop i (suf @ pre) @ user_message_2 @ suf)"
    by (rule no_start_in [OF n1]) (simp add: tail_1_2 sentinel_lengths)
  have b: "\<forall>i<length user_message_2. \<not> prefix user_message_1 (drop i user_message_2 @ suf)"
    by (simp add: within_1_2 sentinel_lengths)
  from split_at_skip [OF no_start_append [OF a b]]
  have "split_at user_message_1 (suf @ pre @ user_message_2 @ suf)
      = (((suf @ pre) @ user_message_2) @ hd (split_at user_message_1 suf))
        # tl (split_at user_message_1 suf)"
    by simp
  with first show ?thesis by (simp add: index_def)
qed

lemma probe_split_2:
  assumes n2: "\<not> sublist user_message_2 (suf @ pre)"
  shows "index (split_at user_message_2 ((suf @ pre) @ user_message_2 @ q)) 0 = Inr (suf @ pre)"
proof -
  have "\<forall>i<length (suf @ pre). \<not> prefix user_message_2 (drop i (suf @ pre) @ user_message_2 @ q)"
    by (rule no_start_in [OF n2]) (simp add: tail_2_2 sentinel_lengths)
  from split_at_first [OF user_message_2_not_Nil this] show ?thesis
    by (simp add: index_def)
qed

lemma probe_split_3:
  assumes n2: "\<not> sublist user_message_2 (suf @ pre)"
  shows "index (split_at user_message_2
            (pre @ user_message_1 @ suf @ pre @ user_message_2 @ suf)) 1 = Inr suf"
proof -
  from sublist_of_append [OF n2] have ns: "\<not> sublist user_message_2 suf"
    and np: "\<not> sublist user_message_2 pre" by simp_all
  have a: "\<forall>i<length pre. \<not> prefix user_message_2
          (drop i pre @ (user_message_1 @ suf @ pre) @ user_message_2 @ suf)"
    by (rule no_start_in [OF np]) (simp add: tail_2_1 sentinel_lengths)
  have b: "\<forall>i<length user_message_1. \<not> prefix user_message_2
          (drop i user_message_1 @ (suf @ pre) @ user_message_2 @ suf)"
    by (simp add: within_2_1 sentinel_lengths)
  have c: "\<forall>i<length (suf @ pre). \<not> prefix user_message_2
          (drop i (suf @ pre) @ user_message_2 @ suf)"
    by (rule no_start_in [OF n2]) (simp add: tail_2_2 sentinel_lengths)
  have "\<forall>i<length (pre @ user_message_1 @ suf @ pre). \<not> prefix user_message_2
          (drop i (pre @ user_message_1 @ suf @ pre) @ user_message_2 @ suf)"
    using no_start_append [OF a no_start_append [OF b c]] by simp
  from split_at_first [OF user_message_2_not_Nil this]
  have "split_at user_message_2 (pre @ user_message_1 @ suf @ pre @ user_message_2 @ suf)
      = (pre @ user_message_1 @ suf @ pre) # split_at user_message_2 suf"
    by simp
  with split_at_absent [OF ns] show ?thesis by (simp add: index_def)
qed

lemma probe_wrapping:
  assumes r: "renderer (probe_messages impersonate)
                = Inr (pre @ user_message_1 @ suf @ pre @ user_message_2 @ suf)"
    and n1: "\<not> sublist user_message_1 (suf @ pre)"
    and n2: "\<not> sublist user_message_2 (suf @ pre)"
  shows "get_generation_prompt renderer impersonate strip_trailing_spaces
           = Inr (if strip_trailing_spaces then rstrip_space pre else pre, suf)"
proof -
  from probe_split_1 [OF n1] obtain q where
    s1: "index (split_at user_message_1
                 (pre @ user_message_1 @ suf @ pre @ user_message_2 @ suf)) 1
           = Inr ((suf @ pre) @ user_message_2 @ q)" by blast
  show ?thesis
    unfolding get_generation_prompt_def Let_def r split_def
    using s1 probe_split_2 [OF n2, of q] probe_split_3 [OF n2]
    by (simp add: user_message_1_not_Nil user_message_2_not_Nil)
qed

subsection \<open>Probing a renderer that wraps each message\<close>

text \<open>
  Claim C1, as amended. The claim holds for the renderers that write every
  message of the probed role as a fixed \<open>pre\<close>, the content and a fixed \<open>suf\<close>, with
  nothing before, between or after, where \<open>suf @ pre\<close> contains neither sentinel.
  For such a renderer \<^verbatim>\<open>get_generation_prompt\<close> returns \<open>(pre, suf)\<close> when
  \<^verbatim>\<open>strip_trailing_spaces\<close> is off and \<open>(pre.rstrip(' '), suf)\<close> when it is on, as by
  default; the rendering of one message is \<open>prefix + X + suffix\<close> for every content
  \<open>X\<close> when the flag is off or \<open>pre\<close> ends in no space.
\<close>

theorem probe_round_trip:
  assumes wraps: "\<And>messages.
        \<forall>m\<in>set messages. role m = (if impersonate then ''user'' else ''assistant'') \<Longrightarrow>
        renderer messages = Inr (concat (map (\<lambda>m. pre @ content m @ suf) messages))"
    and n1: "\<not> sublist user_message_1 (suf @ pre)"
    and n2: "\<not> sublist user_message_2 (suf @ pre)"
  shows "get_generation_prompt renderer impersonate strip_trailing_spaces
           = Inr (if strip_trailing_spaces then rstrip_space pre else pre, suf)
     \<and> ((strip_trailing_spaces \<longrightarrow> rstrip_space pre = pre) \<longrightarrow>
          (\<exists>p s. get_generation_prompt renderer impersonate strip_trailing_spaces = Inr (p, s)
             \<and> renderer [\<lparr>role = (if impersonate then ''user'' else ''assistant''), content = X\<rparr>]
                 = Inr (p @ X @ s)))"
proof -
  have "renderer (probe_messages impersonate)
          = Inr (pre @ user_message_1 @ suf @ pre @ user_message_2 @ suf)"
    using wraps [of "probe_messages impersonate"] by (simp add: probe_messages_def)
  from probe_wrapping [of renderer impersonate pre suf strip_trailing_spaces, OF this n1 n2]
  have p: "get_generation_prompt renderer impersonate strip_trailing_spaces
           = Inr (if strip_trailing_spaces then rstrip_space pre else pre, suf)" .
  have one: "renderer [\<lparr>role = (if impersonate then ''user'' else ''assistant''), content = X\<rparr>]
           = Inr (pre @ X @ suf)"
    using wraps [of "[\<lparr>role = (if impersonate then ''user'' else ''assistant''), content = X\<rparr>]"]
    by simp
  from p one show ?thesis by auto
qed

lemma plain_renderer_wraps:
  "\<forall>m\<in>set messages. role m = ''assistant'' \<Longrightarrow>
   plain_renderer messages
     = Inr (concat (map (\<lambda>m. ''assistant: '' @ content m @ ''\<newline>'') messages))"
  by (induction messages) (simp_all add: plain_renderer_def)

theorem probe_round_trip_witness:
  "\<not> sublist user_message_1 (''\<newline>'' @ ''assistant: '')
   \<and> \<not> sublist user_message_2 (''\<newline>'' @ ''assistant: '')
   \<and> get_generation_prompt plain_renderer False False = Inr (''assistant: '', ''\<newline>'')
   \<and> plain_renderer [\<lparr>role = ''assistant'', content = ''hi''\<rparr>]
       = Inr (''assistant: '' @ ''hi'' @ ''\<newline>'')"
proof -
  have n1: "\<not> sublist user_message_1 (''\<newline>'' @ ''assistant: '')"
    by (simp add: user_message_1_def sublist_Cons_right)
  have n2: "\<not> sublist user_message_2 (''\<newline>'' @ ''assistant: '')"
    by (simp add: user_message_2_def sublist_Cons_right)
  have w: "\<And>messages.
        \<forall>m\<in>set messages. role m = (if False then ''user'' else ''assistant'') \<Longrightarrow>
        plain_renderer messages
          = Inr (concat (map (\<lambda>m. ''assistant: '' @ content m @ ''\<newline>'') messages))"
    using plain_renderer_wraps by simp
  from probe_round_trip [of False plain_renderer "''assistant: ''" "''\<newline>''" False "''hi''",
      OF w n1 n2] n1 n2
  show ?thesis by auto
qed

text \<open>
  The claim as stated fails twice on renderers of this kind: with the default
  flag the prefix of \<open>plain_renderer\<close> loses its trailing space, and a marker
  written once before the messages, as by \<open>bos_renderer\<close>, is in neither fragment.
\<close>

theorem probe_round_trip_counterexample:
  "get_generation_prompt plain_renderer False True = Inr (''assistant:'', ''\<newline>'')
   \<and> plain_renderer [\<lparr>role = ''assistant'', content = ''hi''\<rparr>] = Inr ''assistant: hi\<newline>''
   \<and> ''assistant: hi\<newline>'' \<noteq> ''assistant:'' @ ''hi'' @ ''\<newline>''
   \<and> get_generation_prompt bos_renderer False False = Inr (''assistant: '', ''\<newline>'')
   \<and> bos_renderer [\<lparr>role = ''assistant'', content = ''hi''\<rparr>] = Inr ''<s>assistant: hi\<newline>''
   \<and> ''<s>assistant: hi\<newline>'' \<noteq> ''assistant: '' @ ''hi'' @ ''\<newline>''
   \<and> \<not> sublist user_message_1 ''hi'' \<and> \<not> sublist user_message_2 ''hi''"
  by code_simp

subsection \<open>Continuation\<close>

lemma strip_leading_not_prefix:
  "bos_token \<noteq> [] \<Longrightarrow> \<not> prefix bos_token (strip_leading bos_token prompt)"
proof (induction bos_token prompt rule: strip_leading.induct)
  case (1 bos_token prompt)
  then show ?case by (subst strip_leading.simps) auto
qed

lemma strip_leading_append:
  "\<not> prefix bos_token (strip_leading bos_token prompt @ t) \<Longrightarrow>
   strip_leading bos_token (prompt @ t) = strip_leading bos_token prompt @ t"
proof (induction bos_token prompt rule: strip_leading.induct)
  case (1 bos_token prompt)
  show ?case
  proof (cases "bos_token \<noteq> [] \<and> prefix bos_token prompt")
    case True
    then have s: "strip_leading bos_token prompt
                    = strip_leading bos_token (drop (length bos_token) prompt)"
      by (subst strip_leading.simps) simp
    from True have l: "length bos_token \<le> length prompt" by (simp add: prefix_length_le)
    from True have "prefix bos_token (prompt @ t)" by (simp add: prefix_prefix)
    with True have "strip_leading bos_token (prompt @ t)
                    = strip_leading bos_token (drop (length bos_token) (prompt @ t))"
      by (subst strip_leading.simps) simp
    also have "\<dots> = strip_leading bos_token (drop (length bos_token) prompt @ t)"
      using l by simp
    also have "\<dots> = strip_leading bos_token (drop (length bos_token) prompt) @ t"
      using "1.IH" [OF True] "1.prems" s by simp
    finally show ?thesis by (simp add: s)
  next
    case False
    then have s: "strip_leading bos_token prompt = prompt"
      by (subst strip_leading.simps) auto
    with "1.prems" have "\<not> prefix bos_token (prompt @ t)" by simp
    then have "strip_leading bos_token (prompt @ t) = prompt @ t"
      by (subst strip_leading.simps) simp
    with s show ?thesis by simp
  qed
qed

lemma strip_leading_short:
  "length prompt < length bos_token \<Longrightarrow> strip_leading bos_token prompt = prompt"
  by (subst strip_leading.simps) (auto dest: prefix_length_le)

lemma remove_extra_bos_append:
  assumes a: "\<not> prefix (remove_extra_bos body) ''<s>''"
    and b: "\<not> prefix (remove_extra_bos body) ''<|startoftext|>''"
  shows "remove_extra_bos (body @ t) = remove_extra_bos body @ t"
proof -
  define s1 where "s1 = strip_leading ''<s>'' body"
  define s2 where "s2 = strip_leading ''<|startoftext|>'' s1"
  have r: "remove_extra_bos body = s2"
    by (simp add: remove_extra_bos_def s1_def s2_def)
  have f1: "\<not> prefix ''<s>'' s1"
    unfolding s1_def by (rule strip_leading_not_prefix) simp
  have f2: "\<not> prefix ''<|startoftext|>'' s2"
    unfolding s2_def by (rule strip_leading_not_prefix) simp
  have B: "\<not> prefix ''<|startoftext|>'' (s2 @ t)"
  proof
    assume "prefix ''<|startoftext|>'' (s2 @ t)"
    with f2 obtain us where "''<|startoftext|>'' = s2 @ us"
      by (auto simp: prefix_append)
    then have "prefix s2 ''<|startoftext|>''" by (metis prefixI)
    with b r show False by simp
  qed
  have A: "\<not> prefix ''<s>'' (s1 @ t)"
  proof
    assume "prefix ''<s>'' (s1 @ t)"
    with f1 obtain us where us: "''<s>'' = s1 @ us"
      by (auto simp: prefix_append)
    then have p: "prefix s1 ''<s>''" by (metis prefixI)
    from us have "length s1 \<le> 3" by (metis length_append le_add1 length_Cons list.size(3) numeral_3_eq_3)
    then have "length s1 < length ''<|startoftext|>''" by simp
    then have "s2 = s1" unfolding s2_def by (rule strip_leading_short)
    with p a r show False by simp
  qed
  have "strip_leading ''<s>'' (body @ t) = s1 @ t"
    unfolding s1_def using A [unfolded s1_def] by (rule strip_leading_append)
  moreover have "strip_leading ''<|startoftext|>'' (s1 @ t) = s2 @ t"
    unfolding s2_def using B [unfolded s2_def] by (rule strip_leading_append)
  ultimately show ?thesis by (simp add: remove_extra_bos_def r [symmetric] s1_def s2_def)
qed

lemma slice_to_minus_suffix: "suf \<noteq> [] \<Longrightarrow> slice_to_minus (body @ suf) (length suf) = body"
  by (simp add: slice_to_minus_def)

text \<open>
  Claim C4, as amended. In the modes other than \<open>chat-instruct\<close>, let the
  rendered list end with the probed suffix, which is not empty, and let the text
  before it, once its leading markers are stripped, be no initial part of a
  marker. Then composing in continuation mode gives that stripped text, and
  composing without continuation gives the same followed by the suffix and by
  the generation prefix (the probed prefix, passed through the hook
  \<^verbatim>\<open>bot_prefix\<close> in mode \<open>chat\<close> when not impersonating).
\<close>

theorem continuation_then_suffix:
  assumes m: "mode st \<noteq> ''chat-instruct''"
    and r: "renderer messages = Inr (body @ suf)"
    and p: "get_generation_prompt renderer impersonate True = Inr (pre, suf)"
    and ne: "suf \<noteq> []"
    and a: "\<not> prefix (remove_extra_bos body) ''<s>''"
    and b: "\<not> prefix (remove_extra_bos body) ''<|startoftext|>''"
  shows "make_prompt hook st renderer instruction_template instruct_renderer impersonate True messages
           = Inr (remove_extra_bos body)
     \<and> make_prompt hook st renderer instruction_template instruct_renderer impersonate False messages
           = Inr (remove_extra_bos body @ suf
                  @ (if mode st = ''chat'' \<and> \<not> impersonate then hook pre st else pre))"
proof -
  have "remove_extra_bos ((body @ suf) @ t) = remove_extra_bos body @ suf @ t" for t
    using remove_extra_bos_append [OF a b, of "suf @ t"] by simp
  with m r p ne show ?thesis
    by (simp add: make_prompt_def slice_to_minus_suffix)
qed

theorem continuation_then_suffix_witness:
  "mode example_state \<noteq> ''chat-instruct''
   \<and> plain_renderer example_messages = Inr (''system: S\<newline>user: hello\<newline>assistant: hi'' @ ''\<newline>'')
   \<and> get_generation_prompt plain_renderer False True = Inr (''assistant:'', ''\<newline>'')
   \<and> make_prompt (\<lambda>pre st. pre) example_state plain_renderer (\<lambda>kw. plain_renderer) plain_renderer
         False True example_messages
       = Inr ''system: S\<newline>user: hello\<newline>assistant: hi''
   \<and> make_prompt (\<lambda>pre st. pre) example_state plain_renderer (\<lambda>kw. plain_renderer) plain_renderer
         False False example_messages
       = Inr (''system: S\<newline>user: hello\<newline>assistant: hi'' @ ''\<newline>'' @ ''assistant:'')"
proof -
  have m: "mode example_state \<noteq> ''chat-instruct''"
    by (simp add: example_state_def)
  have c: "mode example_state = ''chat''"
    by (simp add: example_state_def)
  have r: "plain_renderer example_messages
             = Inr (''system: S\<newline>user: hello\<newline>assistant: hi'' @ ''\<newline>'')"
    using plain_renderer_example by simp
  have ne: "''\<newline>'' \<noteq> []" by simp
  have e: "remove_extra_bos ''system: S\<newline>user: hello\<newline>assistant: hi''
             = ''system: S\<newline>user: hello\<newline>assistant: hi''"
    by (simp add: remove_extra_bos_def strip_leading.simps)
  have a: "\<not> prefix (remove_extra_bos ''system: S\<newline>user: hello\<newline>assistant: hi'') ''<s>''"
    unfolding e by simp
  have b: "\<not> prefix (remove_extra_bos ''system: S\<newline>user: hello\<newline>assistant: hi'')
             ''<|startoftext|>''"
    unfolding e by simp
  from continuation_then_suffix [OF m r probe_plain_bot ne a b,
      of "\<lambda>pre st. pre" "\<lambda>kw. plain_renderer" plain_renderer]
  show ?thesis using m r probe_plain_bot by (simp add: e c)
qed

text \<open>
  The claim as stated leaves out the generation prefix: the continuation prompt
  followed by the suffix is the rendered list, and the prompt composed without
  continuation is longer by \<open>assistant:\<close>.
\<close>

theorem continuation_then_suffix_counterexample:
  "make_prompt (\<lambda>pre st. pre) example_state plain_renderer (\<lambda>kw. plain_renderer) plain_renderer
         False True example_messages
       = Inr ''system: S\<newline>user: hello\<newline>assistant: hi''
   \<and> get_generation_prompt plain_renderer False True = Inr (''assistant:'', ''\<newline>'')
   \<and> make_prompt (\<lambda>pre st. pre) example_state plain_renderer (\<lambda>kw. plain_renderer) plain_renderer
         False False example_messages
       = Inr ''system: S\<newline>user: hello\<newline>assistant: hi\<newline>assistant:''
   \<and> ''system: S\<newline>user: hello\<newline>assistant: hi'' @ ''\<newline>''
       \<noteq> ''system: S\<newline>user: hello\<newline>assistant: hi\<newline>assistant:''"
  by code_simp

end
